theory Spec2Isabelle
  imports Main
begin

section \<open>Data model\<close>

text \<open>
  The value of \<^verbatim>\<open>Message.media_group_id\<close> is an opaque Python value: an integer or a
  string when present, \<^verbatim>\<open>None\<close> when absent. Python's \<^verbatim>\<open>==\<close> on two such values is
  equality of the values, and an integer never equals a string.
\<close>

datatype pyval = PInt int | PStr string

text \<open>
  The two fields of \<^verbatim>\<open>types.Message\<close> that \<^verbatim>\<open>get_media_group\<close> reads. The field
  \<^verbatim>\<open>id\<close> is named \<open>id_msg\<close> here, since \<open>id\<close> is the identity function of HOL.
\<close>

record message =
  id_msg :: int
  media_group_id :: "pyval option"

text \<open>\<^verbatim>\<open>chat_id: Union[int, str]\<close>\<close>

datatype chat_ref = ChatId int | ChatName string

text \<open>
  The four \<^verbatim>\<open>ValueError\<close>s of the source, told apart by their message:
  \<^item> \<open>InvalidArgument\<close>: "Passed message_id is negative or equal to zero."
  \<^item> \<open>NotFound n\<close>: "Message with ID n not found"
  \<^item> \<open>NotAGroupMember\<close>: "The message doesn't belong to a media group"
  \<^item> \<open>AssemblyFailure\<close>: "Failed to retrieve the media group"
\<close>

datatype error = InvalidArgument | NotFound int | NotAGroupMember | AssemblyFailure

section \<open>The client\<close>

text \<open>
  \<^verbatim>\<open>self.get_messages\<close> is not part of the file; the method is a parameter of the model.
  It is called in two shapes: with one id (the answer is a message or \<^verbatim>\<open>None\<close>) and with
  \<^verbatim>\<open>range(start_id, end_id + 1)\<close> and \<^verbatim>\<open>replies=0\<close> (the answer is a list of messages).
  The client talks to a remote service, so each call takes the service's state \<open>'s\<close> and
  returns the next one: two calls with the same arguments need not agree.
\<close>

record 's client =
  get_messages_one :: "chat_ref \<Rightarrow> int \<Rightarrow> 's \<Rightarrow> message option \<times> 's"
  get_messages_range :: "chat_ref \<Rightarrow> int \<Rightarrow> int \<Rightarrow> 's \<Rightarrow> message list \<times> 's"

text \<open>Every call of \<^verbatim>\<open>self.get_messages\<close> is recorded, in the order of the calls.\<close>

datatype request = GetOne chat_ref int | GetRange chat_ref int int

record 's world =
  service :: 's
  calls :: "request list"

definition get_messages_single ::
  "'s client \<Rightarrow> chat_ref \<Rightarrow> int \<Rightarrow> 's world \<Rightarrow> message option \<times> 's world" where
  "get_messages_single self chat_id message_id w =
     (case get_messages_one self chat_id message_id (service w) of
        (r, s') \<Rightarrow> (r, \<lparr>service = s', calls = calls w @ [GetOne chat_id message_id]\<rparr>))"

text \<open>The inner function \<^verbatim>\<open>get_message_chunk(start_id, end_id)\<close>.\<close>

definition get_message_chunk ::
  "'s client \<Rightarrow> chat_ref \<Rightarrow> int \<Rightarrow> int \<Rightarrow> 's world \<Rightarrow> message list \<times> 's world" where
  "get_message_chunk self chat_id start_id end_id w =
     (case get_messages_range self chat_id start_id end_id (service w) of
        (r, s') \<Rightarrow> (r, \<lparr>service = s', calls = calls w @ [GetRange chat_id start_id end_id]\<rparr>))"

section \<open>The operation\<close>

text \<open>
  Python's truth value of \<^verbatim>\<open>media_group_id\<close>: \<^verbatim>\<open>None\<close>, \<^verbatim>\<open>0\<close> and the empty string
  are false.
\<close>

fun truthy :: "pyval option \<Rightarrow> bool" where
  "truthy None = False"
| "truthy (Some (PInt n)) = (n \<noteq> 0)"
| "truthy (Some (PStr s)) = (s \<noteq> [])"

text \<open>\<^verbatim>\<open>[msg for msg in chunk if msg.media_group_id == media_group_id]\<close>\<close>

definition group_messages :: "pyval option \<Rightarrow> message list \<Rightarrow> message list" where
  "group_messages g chunk = filter (\<lambda>msg. media_group_id msg = g) chunk"

text \<open>
  The backward loop (\<^verbatim>\<open># Search backwards\<close>). One call is one iteration, from the fetch
  of the chunk to the test \<^verbatim>\<open>current_id <= 0\<close>; the result is the accumulator
  \<^verbatim>\<open>media_group\<close> at the \<^verbatim>\<open>break\<close>.
\<close>

function backward_scan ::
  "'s client \<Rightarrow> chat_ref \<Rightarrow> pyval option \<Rightarrow> message list \<Rightarrow> int \<Rightarrow> 's world
     \<Rightarrow> message list \<times> 's world" where
  "backward_scan self chat_id g media_group current_id w =
     (let cw = get_message_chunk self chat_id (max 1 (current_id - 9)) current_id w;
          gm = group_messages g (fst cw)
      in if gm = [] \<or> id_msg (hd gm) \<noteq> current_id - int (length gm) + 1
         then (media_group, snd cw)
         else if id_msg (hd gm) - 1 \<le> 0
           then (gm @ media_group, snd cw)
           else backward_scan self chat_id g (gm @ media_group) (id_msg (hd gm) - 1) (snd cw))"
  by pat_completeness auto
termination
  by (relation "measure (\<lambda>(self, chat_id, g, media_group, current_id, w). nat current_id)")
     (auto simp: Let_def)

text \<open>
  The forward loop (\<^verbatim>\<open># Search forwards\<close>). It ends only at a chunk without a message
  of the group, so it need not end: \<open>None\<close> is the loop that runs forever.
\<close>

partial_function (option) forward_scan ::
  "'s client \<Rightarrow> chat_ref \<Rightarrow> pyval option \<Rightarrow> message list \<Rightarrow> int \<Rightarrow> 's world
     \<Rightarrow> (message list \<times> 's world) option" where
  "forward_scan self chat_id g media_group current_id w =
     (let cw = get_message_chunk self chat_id current_id (current_id + 9) w;
          gm = group_messages g (fst cw)
      in if gm = []
         then Some (media_group, snd cw)
         else forward_scan self chat_id g (media_group @ gm) (id_msg (last gm) + 1) (snd cw))"

declare forward_scan.simps [code]

definition get_media_group ::
  "'s client \<Rightarrow> chat_ref \<Rightarrow> int \<Rightarrow> 's world \<Rightarrow> ((error + message list) \<times> 's world) option" where
  "get_media_group self chat_id message_id w =
     (if message_id \<le> 0 then Some (Inl InvalidArgument, w)
      else
        case get_messages_single self chat_id message_id w of
          (None, w1) \<Rightarrow> Some (Inl (NotFound message_id), w1)
        | (Some target_message, w1) \<Rightarrow>
            if \<not> truthy (media_group_id target_message) then Some (Inl NotAGroupMember, w1)
            else
              (case backward_scan self chat_id (media_group_id target_message) [] message_id w1 of
                 (media_group, w2) \<Rightarrow>
                   (case forward_scan self chat_id (media_group_id target_message) media_group
                           (message_id + 1) w2 of
                      None \<Rightarrow> None
                    | Some (media_group', w3) \<Rightarrow>
                        if media_group' = [] then Some (Inl AssemblyFailure, w3)
                        else Some (Inr (sort_key id_msg media_group'), w3))))"

section \<open>A service that stores chats\<close>

text \<open>
  Modelled from the spec: \<^verbatim>\<open>self.get_messages\<close>, which is not part of the file, for a
  service whose state gives every chat a finite list of stored messages (a chat that the
  service does not know stores none).
  "fetchById(chat, singleId) -> Message | absent" is the stored message with that id;
  "fetchByIds(chat, idRange)" answers in the order of the requested ids, and "ids outside
  the chat's valid range or deleted are simply absent from the result, not errors".
  Fetching does not change the service.
\<close>

type_synonym chats = "(chat_ref \<times> message list) list"

definition stored :: "chats \<Rightarrow> chat_ref \<Rightarrow> message list" where
  "stored srv chat_id = (case map_of srv chat_id of None \<Rightarrow> [] | Some ch \<Rightarrow> ch)"

definition find_message :: "message list \<Rightarrow> int \<Rightarrow> message option" where
  "find_message ch i = find (\<lambda>m. id_msg m = i) ch"

definition messages_between :: "message list \<Rightarrow> int \<Rightarrow> int \<Rightarrow> message list" where
  "messages_between ch lo hi = List.map_filter (find_message ch) [lo..hi]"

definition chat_client :: "chats client" where
  "chat_client =
     \<lparr>get_messages_one = (\<lambda>chat_id i srv. (find_message (stored srv chat_id) i, srv)),
      get_messages_range =
        (\<lambda>chat_id lo hi srv. (messages_between (stored srv chat_id) lo hi, srv))\<rparr>"

text \<open>The chat stores a message with id \<open>i\<close> whose \<^verbatim>\<open>media_group_id\<close> equals \<open>g\<close>.\<close>

definition has_group :: "message list \<Rightarrow> pyval option \<Rightarrow> int \<Rightarrow> bool" where
  "has_group ch g i =
     (case find_message ch i of None \<Rightarrow> False | Some m \<Rightarrow> media_group_id m = g)"

text \<open>
  The specification's "contiguous id-run around the seed message sharing that group id":
  the id \<open>i\<close> lies in the run around \<open>seed\<close> when every id from the one to the other
  carries the group id.
\<close>

definition in_run :: "message list \<Rightarrow> pyval option \<Rightarrow> int \<Rightarrow> int \<Rightarrow> bool" where
  "in_run ch g seed i = list_all (has_group ch g) [min seed i..max seed i]"

text \<open>A message, written as the source constructs one.\<close>

abbreviation Message :: "int \<Rightarrow> pyval option \<Rightarrow> message" where
  "Message i g \<equiv> \<lparr>id_msg = i, media_group_id = g\<rparr>"

section \<open>Both loops only add messages of the group\<close>

declare backward_scan.simps [simp del]

lemma group_messages_member: "m \<in> set (group_messages g chunk) \<Longrightarrow> media_group_id m = g"
  by (simp add: group_messages_def)

lemma group_messages_append:
  "group_messages g (xs @ ys) = group_messages g xs @ group_messages g ys"
  by (simp add: group_messages_def)

lemma backward_scan_extends:
  "\<exists>pre. fst (backward_scan self c g acc cur w) = pre @ acc \<and>
     (\<forall>m \<in> set pre. media_group_id m = g)"
proof (induction self c g acc cur w rule: backward_scan.induct)
  case (1 self c g acc cur w)
  define cw where "cw = get_message_chunk self c (max 1 (cur - 9)) cur w"
  define gm where "gm = group_messages g (fst cw)"
  have gm_g: "\<forall>m \<in> set gm. media_group_id m = g"
    by (simp add: gm_def group_messages_member)
  show ?case
  proof (cases "gm = [] \<or> id_msg (hd gm) \<noteq> cur - int (length gm) + 1")
    case True
    then have "backward_scan self c g acc cur w = (acc, snd cw)"
      by (subst backward_scan.simps) (simp add: Let_def cw_def gm_def)
    then show ?thesis by simp
  next
    case accepted: False
    show ?thesis
    proof (cases "id_msg (hd gm) - 1 \<le> 0")
      case True
      with accepted have "backward_scan self c g acc cur w = (gm @ acc, snd cw)"
        by (subst backward_scan.simps) (simp add: Let_def cw_def gm_def)
      with gm_g show ?thesis by auto
    next
      case False
      with accepted have eq: "backward_scan self c g acc cur w =
          backward_scan self c g (gm @ acc) (id_msg (hd gm) - 1) (snd cw)"
        by (subst backward_scan.simps) (simp add: Let_def cw_def gm_def)
      from "1.IH" [OF cw_def gm_def accepted False]
      obtain pre where
        "fst (backward_scan self c g (gm @ acc) (id_msg (hd gm) - 1) (snd cw)) = pre @ gm @ acc"
        and "\<forall>m \<in> set pre. media_group_id m = g" by auto
      with gm_g eq have "fst (backward_scan self c g acc cur w) = (pre @ gm) @ acc \<and>
          (\<forall>m \<in> set (pre @ gm). media_group_id m = g)"
        by auto
      then show ?thesis by blast
    qed
  qed
qed

lemma forward_scan_extends:
  assumes "forward_scan self c g acc cur w = Some r"
  shows "\<exists>ext. fst r = acc @ ext \<and> (\<forall>m \<in> set ext. media_group_id m = g)"
proof (induct rule: forward_scan.raw_induct [OF _ assms])
  case (1 f self c g acc cur w r)
  define cw where "cw = get_message_chunk self c cur (cur + 9) w"
  define gm where "gm = group_messages g (fst cw)"
  have gm_g: "\<forall>m \<in> set gm. media_group_id m = g"
    by (simp add: gm_def group_messages_member)
  show ?case
  proof (cases "gm = []")
    case True
    with 1(2) have "r = (acc, snd cw)" by (simp add: Let_def cw_def gm_def)
    then show ?thesis by simp
  next
    case False
    with 1(2) have "f self c g (acc @ gm) (id_msg (last gm) + 1) (snd cw) = Some r"
      by (simp add: Let_def cw_def gm_def)
    from 1(1) [OF this] obtain ext
      where "fst r = (acc @ gm) @ ext" "\<forall>m \<in> set ext. media_group_id m = g"
      by auto
    with gm_g have "fst r = acc @ (gm @ ext) \<and> (\<forall>m \<in> set (gm @ ext). media_group_id m = g)"
      by auto
    then show ?thesis by blast
  qed
qed

section \<open>Validation and seed lookup\<close>

text \<open>
  C6. For every \<open>message_id \<le> 0\<close> and every \<open>chat_id\<close> the call fails with
  \<open>InvalidArgument\<close>, and the world it leaves is the world it found: no call of
  \<^verbatim>\<open>get_messages\<close> is recorded and the service is untouched.
\<close>

theorem invalid_message_id_no_fetch:
  "message_id \<le> 0 \<Longrightarrow>
     get_media_group self chat_id message_id w = Some (Inl InvalidArgument, w)"
  by (simp add: get_media_group_def)

theorem invalid_message_id_no_fetch_witness:
  "(- 3 :: int) \<le> 0 \<and>
   get_media_group chat_client (ChatName ''me'') (- 3) \<lparr>service = [], calls = []\<rparr>
     = Some (Inl InvalidArgument, \<lparr>service = [], calls = []\<rparr>)"
  using invalid_message_id_no_fetch
    [of "- 3" chat_client "ChatName ''me''" "\<lparr>service = [], calls = []\<rparr>"]
  by simp

text \<open>
  C7. For a positive \<open>message_id\<close>: when the seed fetch answers nothing the call fails
  with \<open>NotFound\<close>, and when the fetched message carries no \<^verbatim>\<open>media_group_id\<close> it fails
  with \<open>NotAGroupMember\<close>. In both cases the only recorded call is the seed fetch, so no
  chunk was fetched.
\<close>

theorem seed_lookup_failures:
  assumes "0 < message_id"
    and "get_messages_one self chat_id message_id (service w) = (r, s')"
    and "r = None \<or> (\<exists>t. r = Some t \<and> media_group_id t = None)"
  shows "get_media_group self chat_id message_id w =
           Some (Inl (case r of None \<Rightarrow> NotFound message_id | Some t \<Rightarrow> NotAGroupMember),
                 \<lparr>service = s', calls = calls w @ [GetOne chat_id message_id]\<rparr>)"
  using assms by (auto simp: get_media_group_def get_messages_single_def)

theorem seed_lookup_failures_witness:
  "get_media_group chat_client (ChatId 1) 7
     \<lparr>service = [(ChatId 1, [\<lparr>id_msg = 5, media_group_id = None\<rparr>])], calls = []\<rparr>
     = Some (Inl (NotFound 7),
         \<lparr>service = [(ChatId 1, [\<lparr>id_msg = 5, media_group_id = None\<rparr>])],
          calls = [GetOne (ChatId 1) 7]\<rparr>) \<and>
   get_media_group chat_client (ChatId 1) 5
     \<lparr>service = [(ChatId 1, [\<lparr>id_msg = 5, media_group_id = None\<rparr>])], calls = []\<rparr>
     = Some (Inl NotAGroupMember,
         \<lparr>service = [(ChatId 1, [\<lparr>id_msg = 5, media_group_id = None\<rparr>])],
          calls = [GetOne (ChatId 1) 5]\<rparr>)"
proof -
  let ?srv = "[(ChatId 1, [\<lparr>id_msg = 5, media_group_id = None\<rparr>])]"
  let ?w = "\<lparr>service = ?srv, calls = []\<rparr>"
  have absent: "get_messages_one chat_client (ChatId 1) 7 (service ?w) = (None, ?srv)"
    by (simp add: chat_client_def stored_def find_message_def)
  have bare: "get_messages_one chat_client (ChatId 1) 5 (service ?w)
      = (Some \<lparr>id_msg = 5, media_group_id = None\<rparr>, ?srv)"
    by (simp add: chat_client_def stored_def find_message_def)
  from seed_lookup_failures [OF _ absent] seed_lookup_failures [OF _ bare]
  show ?thesis by simp
qed

text \<open>
  C10. A fetched seed message whose \<^verbatim>\<open>media_group_id\<close> is present but false in Python
  (the integer 0 or the empty string) is treated like one without: the call fails with
  \<open>NotAGroupMember\<close> after the seed fetch.
\<close>

theorem falsy_group_id_not_a_member:
  assumes "0 < message_id"
    and "get_messages_one self chat_id message_id (service w) = (Some t, s')"
    and "media_group_id t = Some (PInt 0) \<or> media_group_id t = Some (PStr [])"
  shows "get_media_group self chat_id message_id w =
           Some (Inl NotAGroupMember,
                 \<lparr>service = s', calls = calls w @ [GetOne chat_id message_id]\<rparr>)"
  using assms by (auto simp: get_media_group_def get_messages_single_def)

theorem falsy_group_id_not_a_member_witness:
  "get_media_group chat_client (ChatId 1) 2
     \<lparr>service = [(ChatId 1, [\<lparr>id_msg = 2, media_group_id = Some (PInt 0)\<rparr>])], calls = []\<rparr>
     = Some (Inl NotAGroupMember,
         \<lparr>service = [(ChatId 1, [\<lparr>id_msg = 2, media_group_id = Some (PInt 0)\<rparr>])],
          calls = [GetOne (ChatId 1) 2]\<rparr>) \<and>
   get_media_group chat_client (ChatId 1) 2
     \<lparr>service = [(ChatId 1, [\<lparr>id_msg = 2, media_group_id = Some (PStr [])\<rparr>])], calls = []\<rparr>
     = Some (Inl NotAGroupMember,
         \<lparr>service = [(ChatId 1, [\<lparr>id_msg = 2, media_group_id = Some (PStr [])\<rparr>])],
          calls = [GetOne (ChatId 1) 2]\<rparr>)"
proof -
  let ?zero = "[(ChatId 1, [\<lparr>id_msg = 2, media_group_id = Some (PInt 0)\<rparr>])]"
  let ?empty = "[(ChatId 1, [\<lparr>id_msg = 2, media_group_id = Some (PStr [])\<rparr>])]"
  have zero: "get_messages_one chat_client (ChatId 1) 2 (service \<lparr>service = ?zero, calls = []\<rparr>)
      = (Some \<lparr>id_msg = 2, media_group_id = Some (PInt 0)\<rparr>, ?zero)"
    by (simp add: chat_client_def stored_def find_message_def)
  have empty: "get_messages_one chat_client (ChatId 1) 2 (service \<lparr>service = ?empty, calls = []\<rparr>)
      = (Some \<lparr>id_msg = 2, media_group_id = Some (PStr [])\<rparr>, ?empty)"
    by (simp add: chat_client_def stored_def find_message_def)
  from falsy_group_id_not_a_member [OF _ zero] falsy_group_id_not_a_member [OF _ empty]
  show ?thesis by simp
qed

section \<open>What a successful call returns\<close>

text \<open>
  C5. Every message of a list returned by a successful call has the \<^verbatim>\<open>media_group_id\<close>
  of the target message (the answer to the seed fetch), and the list is sorted ascending
  by message id. This holds for every client.
\<close>

theorem returned_messages_share_group_and_sorted:
  assumes "get_media_group self c mid w = Some (Inr ms, w')"
  shows "\<exists>t. fst (get_messages_one self c mid (service w)) = Some t \<and>
           (\<forall>m \<in> set ms. media_group_id m = media_group_id t) \<and> sorted (map id_msg ms)"
proof -
  from assms have pos: "0 < mid" by (auto simp: get_media_group_def split: if_splits)
  obtain r w1 where single: "get_messages_single self c mid w = (r, w1)" by force
  with assms pos obtain t where t: "r = Some t" "truthy (media_group_id t)"
    by (auto simp: get_media_group_def split: if_splits option.splits)
  from single have one: "fst (get_messages_one self c mid (service w)) = r"
    by (auto simp: get_messages_single_def split: prod.splits)
  obtain bk w2 where bk: "backward_scan self c (media_group_id t) [] mid w1 = (bk, w2)"
    by force
  with assms pos single t obtain mg
    where fw: "forward_scan self c (media_group_id t) bk (mid + 1) w2 = Some (mg, w')"
      and ms: "ms = sort_key id_msg mg"
    by (auto simp: get_media_group_def split: if_splits option.splits)
  from backward_scan_extends [of self c "media_group_id t" "[]" mid w1] bk
  have b: "\<forall>m \<in> set bk. media_group_id m = media_group_id t" by auto
  from forward_scan_extends [OF fw] b
  have "\<forall>m \<in> set mg. media_group_id m = media_group_id t" by auto
  with ms t one show ?thesis by auto
qed

theorem returned_messages_share_group_and_sorted_witness:
  "get_media_group chat_client (ChatName ''me'') 2
     \<lparr>service = [(ChatName ''me'', [Message 2 (Some (PStr ''a'')), Message 1 (Some (PStr ''a''))])],
      calls = []\<rparr>
   = Some (Inr [Message 1 (Some (PStr ''a'')), Message 2 (Some (PStr ''a''))],
       \<lparr>service = [(ChatName ''me'', [Message 2 (Some (PStr ''a'')), Message 1 (Some (PStr ''a''))])],
        calls = [GetOne (ChatName ''me'') 2, GetRange (ChatName ''me'') 1 2,
                 GetRange (ChatName ''me'') 3 12]\<rparr>) \<and>
   (\<exists>t. fst (get_messages_one chat_client (ChatName ''me'') 2
             (service \<lparr>service = [(ChatName ''me'',
                [Message 2 (Some (PStr ''a'')), Message 1 (Some (PStr ''a''))])], calls = []\<rparr>))
          = Some t \<and>
        (\<forall>m \<in> set [Message 1 (Some (PStr ''a'')), Message 2 (Some (PStr ''a''))].
           media_group_id m = media_group_id t) \<and>
        sorted (map id_msg [Message 1 (Some (PStr ''a'')), Message 2 (Some (PStr ''a''))]))"
proof -
  have run: "get_media_group chat_client (ChatName ''me'') 2
     \<lparr>service = [(ChatName ''me'', [Message 2 (Some (PStr ''a'')), Message 1 (Some (PStr ''a''))])],
      calls = []\<rparr>
   = Some (Inr [Message 1 (Some (PStr ''a'')), Message 2 (Some (PStr ''a''))],
       \<lparr>service = [(ChatName ''me'', [Message 2 (Some (PStr ''a'')), Message 1 (Some (PStr ''a''))])],
        calls = [GetOne (ChatName ''me'') 2, GetRange (ChatName ''me'') 1 2,
                 GetRange (ChatName ''me'') 3 12]\<rparr>)"
    by code_simp
  from run returned_messages_share_group_and_sorted [OF run] show ?thesis
    by (rule conjI)
qed

section \<open>The scans on a stored chat\<close>

lemma chunk_chat:
  "get_message_chunk chat_client c lo hi w =
     (messages_between (stored (service w) c) lo hi,
      \<lparr>service = service w, calls = calls w @ [GetRange c lo hi]\<rparr>)"
  by (simp add: get_message_chunk_def chat_client_def)

lemma find_message_id: "find_message ch i = Some m \<Longrightarrow> id_msg m = i \<and> m \<in> set ch"
  by (auto simp: find_message_def find_Some_iff)

lemma messages_between_empty: "hi < lo \<Longrightarrow> messages_between ch lo hi = []"
  by (simp add: messages_between_def List.map_filter_def)

lemma messages_between_split:
  assumes "lo \<le> m" "m \<le> hi + 1"
  shows "messages_between ch lo hi = messages_between ch lo (m - 1) @ messages_between ch m hi"
proof (cases "m \<le> hi")
  case True
  with assms have "[lo..hi] = [lo..m - 1] @ [m..hi]" by (simp add: upto_split1)
  then show ?thesis by (simp add: messages_between_def List.map_filter_def)
next
  case False
  with assms have "m = hi + 1" by simp
  then show ?thesis by (simp add: messages_between_def List.map_filter_def)
qed

lemma map_filter_find_member:
  "m \<in> set (List.map_filter (find_message ch) ids) \<Longrightarrow> id_msg m \<in> set ids \<and> m \<in> set ch"
  by (induction ids) (auto simp: map_filter_simps split: option.splits dest: find_message_id)

lemma messages_between_member:
  "m \<in> set (messages_between ch lo hi) \<Longrightarrow> lo \<le> id_msg m \<and> id_msg m \<le> hi \<and> m \<in> set ch"
  using map_filter_find_member [of m ch "[lo..hi]"] by (simp add: messages_between_def)

lemma map_filter_all_group:
  "\<forall>i \<in> set ids. has_group ch g i \<Longrightarrow>
     group_messages g (List.map_filter (find_message ch) ids) = List.map_filter (find_message ch) ids \<and>
     map id_msg (List.map_filter (find_message ch) ids) = ids"
  by (induction ids)
     (auto simp: List.map_filter_def group_messages_def has_group_def
           split: option.splits dest: find_message_id)

lemma map_filter_no_group:
  "\<forall>i \<in> set ids. \<not> has_group ch g i \<Longrightarrow>
     group_messages g (List.map_filter (find_message ch) ids) = []"
  by (induction ids)
     (auto simp: List.map_filter_def group_messages_def has_group_def split: option.splits)

lemma group_messages_run:
  "\<forall>i. lo \<le> i \<and> i \<le> hi \<longrightarrow> has_group ch g i \<Longrightarrow>
     group_messages g (messages_between ch lo hi) = messages_between ch lo hi"
  using map_filter_all_group [of "[lo..hi]" ch g] by (simp add: messages_between_def)

lemma ids_messages_run:
  "\<forall>i. lo \<le> i \<and> i \<le> hi \<longrightarrow> has_group ch g i \<Longrightarrow>
     map id_msg (messages_between ch lo hi) = [lo..hi]"
  using map_filter_all_group [of "[lo..hi]" ch g] by (simp add: messages_between_def)

lemma group_messages_quiet:
  "\<forall>i. lo \<le> i \<and> i \<le> hi \<longrightarrow> \<not> has_group ch g i \<Longrightarrow>
     group_messages g (messages_between ch lo hi) = []"
  using map_filter_no_group [of "[lo..hi]" ch g] by (simp add: messages_between_def)

lemma group_messages_window_low:
  assumes "lo \<le> m" "m \<le> hi + 1"
    and "\<forall>i. lo \<le> i \<and> i < m \<longrightarrow> \<not> has_group ch g i"
    and "\<forall>i. m \<le> i \<and> i \<le> hi \<longrightarrow> has_group ch g i"
  shows "group_messages g (messages_between ch lo hi) = messages_between ch m hi"
proof -
  have "group_messages g (messages_between ch lo (m - 1)) = []"
    using assms(3) by (intro group_messages_quiet) auto
  moreover have "group_messages g (messages_between ch m hi) = messages_between ch m hi"
    using assms(4) by (intro group_messages_run) auto
  ultimately show ?thesis
    by (simp add: messages_between_split [OF assms(1,2)] group_messages_append)
qed

lemma group_messages_window_high:
  assumes "lo \<le> m + 1" "m \<le> hi"
    and "\<forall>i. lo \<le> i \<and> i \<le> m \<longrightarrow> has_group ch g i"
    and "\<forall>i. m < i \<and> i \<le> hi \<longrightarrow> \<not> has_group ch g i"
  shows "group_messages g (messages_between ch lo hi) = messages_between ch lo m"
proof -
  have "group_messages g (messages_between ch (m + 1) hi) = []"
    using assms(4) by (intro group_messages_quiet) auto
  moreover have "group_messages g (messages_between ch lo m) = messages_between ch lo m"
    using assms(3) by (intro group_messages_run) auto
  ultimately show ?thesis
    using messages_between_split [of lo "m + 1" hi ch] assms(1,2)
    by (simp add: group_messages_append)
qed

lemma messages_run_nonempty:
  assumes "\<forall>i. lo \<le> i \<and> i \<le> hi \<longrightarrow> has_group ch g i" "lo \<le> hi"
  shows "messages_between ch lo hi \<noteq> []"
    and "id_msg (hd (messages_between ch lo hi)) = lo"
    and "id_msg (last (messages_between ch lo hi)) = hi"
    and "int (length (messages_between ch lo hi)) = hi - lo + 1"
proof -
  have ids: "map id_msg (messages_between ch lo hi) = [lo..hi]"
    using assms(1) by (rule ids_messages_run)
  from assms(2) have ne: "[lo..hi] \<noteq> []" by simp
  with ids show nonempty: "messages_between ch lo hi \<noteq> []" by auto
  from nonempty have "id_msg (hd (messages_between ch lo hi)) = hd (map id_msg (messages_between ch lo hi))"
    by (simp add: hd_map)
  with ids assms(2) show "id_msg (hd (messages_between ch lo hi)) = lo"
    by (simp add: upto_rec1)
  from nonempty have "id_msg (last (messages_between ch lo hi)) = last (map id_msg (messages_between ch lo hi))"
    by (simp add: last_map)
  with ids assms(2) show "id_msg (last (messages_between ch lo hi)) = hi"
    by (simp add: upto_rec2)
  have "length (messages_between ch lo hi) = length (map id_msg (messages_between ch lo hi))" by simp
  with ids assms(2) show "int (length (messages_between ch lo hi)) = hi - lo + 1"
    by simp
qed

lemma backward_scan_run:
  assumes run: "\<forall>i. a \<le> i \<and> i \<le> s \<longrightarrow> has_group ch g i"
    and quiet: "\<forall>i. max 1 (a - 10) \<le> i \<and> i < a \<longrightarrow> \<not> has_group ch g i"
    and a: "1 \<le> a"
  shows "1 \<le> cur \<Longrightarrow> a - 1 \<le> cur \<Longrightarrow> cur \<le> s \<Longrightarrow> stored (service w) c = ch \<Longrightarrow>
     fst (backward_scan chat_client c g acc cur w) = messages_between ch a cur @ acc \<and>
     service (snd (backward_scan chat_client c g acc cur w)) = service w"
proof (induction "nat cur" arbitrary: cur acc w rule: less_induct)
  case less
  define lo where "lo = max 1 (cur - 9)"
  define w' where "w' = \<lparr>service = service w, calls = calls w @ [GetRange c lo cur]\<rparr>"
  have cw: "get_message_chunk chat_client c (max 1 (cur - 9)) cur w = (messages_between ch lo cur, w')"
    by (simp add: chunk_chat less.prems lo_def w'_def)
  show ?case
  proof (cases "cur < a")
    case True
    with less.prems have "cur = a - 1" by simp
    with quiet have "\<forall>i. lo \<le> i \<and> i \<le> cur \<longrightarrow> \<not> has_group ch g i"
      by (auto simp: lo_def)
    then have "group_messages g (messages_between ch lo cur) = []"
      by (rule group_messages_quiet)
    then have "backward_scan chat_client c g acc cur w = (acc, w')"
      by (subst backward_scan.simps) (simp add: cw Let_def)
    with True show ?thesis by (simp add: messages_between_empty w'_def)
  next
    case False
    define m where "m = max a lo"
    from False less.prems a have m: "lo \<le> m" "m \<le> cur" "a \<le> m" "1 \<le> m"
      by (auto simp: m_def lo_def)
    have "\<forall>i. lo \<le> i \<and> i < m \<longrightarrow> \<not> has_group ch g i"
      using quiet False by (auto simp: m_def lo_def)
    moreover have in_run: "\<forall>i. m \<le> i \<and> i \<le> cur \<longrightarrow> has_group ch g i"
      using run m less.prems by auto
    ultimately have gm: "group_messages g (messages_between ch lo cur) = messages_between ch m cur"
      using m by (intro group_messages_window_low) auto
    note facts = messages_run_nonempty [OF in_run m(2)]
    have join: "messages_between ch a cur = messages_between ch a (m - 1) @ messages_between ch m cur"
      using m by (intro messages_between_split) auto
    show ?thesis
    proof (cases "m - 1 \<le> 0")
      case True
      with m a have "a = m" by simp
      moreover from True have "backward_scan chat_client c g acc cur w = (messages_between ch m cur @ acc, w')"
        by (subst backward_scan.simps) (simp add: cw gm facts Let_def)
      ultimately show ?thesis by (simp add: w'_def)
    next
      case positive: False
      then have step: "backward_scan chat_client c g acc cur w =
          backward_scan chat_client c g (messages_between ch m cur @ acc) (m - 1) w'"
        by (subst backward_scan.simps) (simp add: cw gm facts Let_def)
      have "fst (backward_scan chat_client c g (messages_between ch m cur @ acc) (m - 1) w')
            = messages_between ch a (m - 1) @ messages_between ch m cur @ acc \<and>
          service (snd (backward_scan chat_client c g (messages_between ch m cur @ acc) (m - 1) w'))
            = service w'"
        using positive m less.prems by (intro less.hyps) (auto simp: w'_def)
      with step join show ?thesis by (simp add: w'_def)
    qed
  qed
qed

lemma forward_scan_run:
  assumes run: "\<forall>i. s < i \<and> i \<le> b \<longrightarrow> has_group ch g i"
    and quiet: "\<forall>i. b < i \<and> i \<le> b + 10 \<longrightarrow> \<not> has_group ch g i"
  shows "s < cur \<Longrightarrow> cur \<le> b + 1 \<Longrightarrow> stored (service w) c = ch \<Longrightarrow>
     \<exists>w'. forward_scan chat_client c g acc cur w = Some (acc @ messages_between ch cur b, w') \<and>
          service w' = service w"
proof (induction "nat (b + 1 - cur)" arbitrary: cur acc w rule: less_induct)
  case less
  define w' where "w' = \<lparr>service = service w, calls = calls w @ [GetRange c cur (cur + 9)]\<rparr>"
  have cw: "get_message_chunk chat_client c cur (cur + 9) w = (messages_between ch cur (cur + 9), w')"
    by (simp add: chunk_chat less.prems w'_def)
  show ?case
  proof (cases "b < cur")
    case True
    with quiet less.prems have "\<forall>i. cur \<le> i \<and> i \<le> cur + 9 \<longrightarrow> \<not> has_group ch g i"
      by auto
    then have "group_messages g (messages_between ch cur (cur + 9)) = []"
      by (rule group_messages_quiet)
    then have "forward_scan chat_client c g acc cur w = Some (acc, w')"
      by (subst forward_scan.simps) (simp add: cw Let_def)
    with True show ?thesis by (simp add: messages_between_empty w'_def)
  next
    case False
    define m where "m = min b (cur + 9)"
    from False have m: "cur \<le> m" "m \<le> b" "m \<le> cur + 9"
      by (auto simp: m_def)
    have in_run: "\<forall>i. cur \<le> i \<and> i \<le> m \<longrightarrow> has_group ch g i"
      using run m less.prems by auto
    moreover have "\<forall>i. m < i \<and> i \<le> cur + 9 \<longrightarrow> \<not> has_group ch g i"
      using quiet m by (auto simp: m_def)
    ultimately have gm: "group_messages g (messages_between ch cur (cur + 9)) = messages_between ch cur m"
      using m by (intro group_messages_window_high) auto
    note facts = messages_run_nonempty [OF in_run m(1)]
    have join: "messages_between ch cur b = messages_between ch cur m @ messages_between ch (m + 1) b"
      using m messages_between_split [of cur "m + 1" b ch] by simp
    have step: "forward_scan chat_client c g acc cur w =
        forward_scan chat_client c g (acc @ messages_between ch cur m) (m + 1) w'"
      by (subst forward_scan.simps) (simp add: cw gm facts Let_def)
    have "\<exists>w''. forward_scan chat_client c g (acc @ messages_between ch cur m) (m + 1) w'
            = Some ((acc @ messages_between ch cur m) @ messages_between ch (m + 1) b, w'') \<and>
          service w'' = service w'"
      using m less.prems by (intro less.hyps) (auto simp: w'_def)
    with step join show ?thesis by (simp add: w'_def)
  qed
qed

lemma forward_scan_chat_bounded:
  assumes bound: "\<forall>m \<in> set ch. id_msg m \<le> M"
  shows "stored (service w) c = ch \<Longrightarrow>
     \<exists>ext w'. forward_scan chat_client c g acc cur w = Some (acc @ ext, w') \<and>
          service w' = service w \<and> (\<forall>m \<in> set ext. cur \<le> id_msg m)"
proof (induction "nat (M + 1 - cur)" arbitrary: cur acc w rule: less_induct)
  case less
  define w' where "w' = \<lparr>service = service w, calls = calls w @ [GetRange c cur (cur + 9)]\<rparr>"
  define gm where "gm = group_messages g (messages_between ch cur (cur + 9))"
  have cw: "get_message_chunk chat_client c cur (cur + 9) w = (messages_between ch cur (cur + 9), w')"
    by (simp add: chunk_chat less.prems w'_def)
  have gm_ids: "\<forall>m \<in> set gm. cur \<le> id_msg m \<and> id_msg m \<le> M"
    using bound by (auto simp: gm_def group_messages_def dest: messages_between_member)
  show ?case
  proof (cases "gm = []")
    case True
    then have "forward_scan chat_client c g acc cur w = Some (acc, w')"
      by (subst forward_scan.simps) (simp add: cw gm_def Let_def)
    then show ?thesis by (simp add: w'_def)
  next
    case False
    then have "last gm \<in> set gm" by simp
    with gm_ids have l: "cur \<le> id_msg (last gm)" "id_msg (last gm) \<le> M" by auto
    from False have step: "forward_scan chat_client c g acc cur w =
        forward_scan chat_client c g (acc @ gm) (id_msg (last gm) + 1) w'"
      by (subst forward_scan.simps) (simp add: cw gm_def Let_def)
    have "\<exists>ext w''. forward_scan chat_client c g (acc @ gm) (id_msg (last gm) + 1) w'
            = Some ((acc @ gm) @ ext, w'') \<and> service w'' = service w' \<and>
            (\<forall>m \<in> set ext. id_msg (last gm) + 1 \<le> id_msg m)"
      using l less.prems by (intro less.hyps) (auto simp: w'_def)
    then obtain ext w'' where r: "forward_scan chat_client c g (acc @ gm) (id_msg (last gm) + 1) w'
            = Some ((acc @ gm) @ ext, w'')" "service w'' = service w'"
            "\<forall>m \<in> set ext. id_msg (last gm) + 1 \<le> id_msg m" by blast
    from r(3) l gm_ids have "\<forall>m \<in> set (gm @ ext). cur \<le> id_msg m" by auto
    with step r(1,2) have "forward_scan chat_client c g acc cur w = Some (acc @ (gm @ ext), w'') \<and>
        service w'' = service w \<and> (\<forall>m \<in> set (gm @ ext). cur \<le> id_msg m)"
      by (simp add: w'_def)
    then show ?thesis by blast
  qed
qed

lemma ids_bounded: "\<exists>M. \<forall>m \<in> set (ch :: message list). id_msg m \<le> M"
proof (induction ch)
  case Nil
  then show ?case by simp
next
  case (Cons x xs)
  then obtain M where "\<forall>m \<in> set xs. id_msg m \<le> M" by blast
  then have "\<forall>m \<in> set (x # xs). id_msg m \<le> max M (id_msg x)" by auto
  then show ?case by blast
qed

lemma forward_scan_chat_terminates:
  assumes "stored (service w) c = ch"
  shows "\<exists>ext w'. forward_scan chat_client c g acc cur w = Some (acc @ ext, w') \<and>
          service w' = service w \<and> (\<forall>m \<in> set ext. cur \<le> id_msg m)"
  using ids_bounded [of ch] forward_scan_chat_bounded [OF _ assms] by blast

lemma single_chat:
  "get_messages_single chat_client c i w =
     (find_message (stored (service w) c) i,
      \<lparr>service = service w, calls = calls w @ [GetOne c i]\<rparr>)"
  by (simp add: get_messages_single_def chat_client_def)

lemma get_media_group_run:
  assumes bounds: "1 \<le> a" "a \<le> s" "s \<le> b"
    and ch: "stored (service w) c = ch"
    and g: "truthy g"
    and run: "\<forall>i. a \<le> i \<and> i \<le> b \<longrightarrow> has_group ch g i"
    and below: "\<forall>i. max 1 (a - 10) \<le> i \<and> i < a \<longrightarrow> \<not> has_group ch g i"
    and above: "\<forall>i. b < i \<and> i \<le> b + 10 \<longrightarrow> \<not> has_group ch g i"
  shows "\<exists>w'. get_media_group chat_client c s w = Some (Inr (messages_between ch a b), w') \<and>
           service w' = service w"
proof -
  define w1 where "w1 = \<lparr>service = service w, calls = calls w @ [GetOne c s]\<rparr>"
  from run bounds have "has_group ch g s" by simp
  then obtain t where t: "find_message ch s = Some t" "media_group_id t = g"
    by (auto simp: has_group_def split: option.splits)
  have seed: "get_messages_single chat_client c s w = (Some t, w1)"
    by (simp add: single_chat ch t w1_def)
  have ch1: "stored (service w1) c = ch" by (simp add: w1_def ch)
  obtain bk w2 where bk: "backward_scan chat_client c g [] s w1 = (bk, w2)" by force
  have "fst (backward_scan chat_client c g [] s w1) = messages_between ch a s @ [] \<and>
      service (snd (backward_scan chat_client c g [] s w1)) = service w1"
    using bounds run by (intro backward_scan_run [OF _ below bounds(1) _ _ _ ch1]) auto
  with bk have bk_eq: "bk = messages_between ch a s" and w2: "service w2 = service w"
    by (simp_all add: w1_def)
  have "\<exists>w'. forward_scan chat_client c g bk (s + 1) w2 = Some (bk @ messages_between ch (s + 1) b, w') \<and>
      service w' = service w2"
    using bounds run by (intro forward_scan_run [OF _ above]) (auto simp: w2 ch)
  then obtain w3 where fw: "forward_scan chat_client c g bk (s + 1) w2
      = Some (bk @ messages_between ch (s + 1) b, w3)" and w3: "service w3 = service w2" by blast
  have whole: "bk @ messages_between ch (s + 1) b = messages_between ch a b"
    using bounds messages_between_split [of a "s + 1" b ch] by (simp add: bk_eq)
  have ids: "map id_msg (messages_between ch a b) = [a..b]"
    using run by (rule ids_messages_run)
  from bounds have nonempty: "messages_between ch a b \<noteq> []"
    using messages_run_nonempty(1) [OF run] by simp
  have sorted: "sort_key id_msg (messages_between ch a b) = messages_between ch a b"
    by (rule sort_key_id_if_sorted) (simp add: ids)
  from bounds g have "get_media_group chat_client c s w = Some (Inr (messages_between ch a b), w3)"
    by (simp add: get_media_group_def seed t bk fw whole nonempty sorted)
  with w3 w2 show ?thesis by simp
qed

lemma in_run_iff:
  assumes bounds: "a \<le> s" "s \<le> b"
    and run: "\<forall>i. a \<le> i \<and> i \<le> b \<longrightarrow> has_group ch g i"
    and below: "\<forall>i. max 1 (a - 10) \<le> i \<and> i < a \<longrightarrow> \<not> has_group ch g i"
    and above: "\<forall>i. b < i \<and> i \<le> b + 10 \<longrightarrow> \<not> has_group ch g i"
    and i: "1 \<le> i"
  shows "in_run ch g s i \<longleftrightarrow> a \<le> i \<and> i \<le> b"
proof
  assume r: "in_run ch g s i"
  then have all: "\<forall>j. min s i \<le> j \<and> j \<le> max s i \<longrightarrow> has_group ch g j"
    by (simp add: in_run_def list_all_iff)
  show "a \<le> i \<and> i \<le> b"
  proof (rule ccontr)
    assume "\<not> (a \<le> i \<and> i \<le> b)"
    then consider "i < a" | "b < i" by linarith
    then show False
    proof cases
      case 1
      with bounds i all have "has_group ch g (a - 1)" by auto
      moreover from 1 i below have "\<not> has_group ch g (a - 1)" by auto
      ultimately show False by simp
    next
      case 2
      with bounds all have "has_group ch g (b + 1)" by auto
      moreover from above have "\<not> has_group ch g (b + 1)" by auto
      ultimately show False by simp
    qed
  qed
next
  assume "a \<le> i \<and> i \<le> b"
  with bounds run have "\<forall>j. min s i \<le> j \<and> j \<le> max s i \<longrightarrow> has_group ch g j"
    by (auto simp: min_def max_def split: if_splits)
  then show "in_run ch g s i"
    by (simp add: in_run_def list_all_iff)
qed

lemma list_all_upto: "list_all P [lo..hi] \<longleftrightarrow> (\<forall>i. lo \<le> i \<and> i \<le> hi \<longrightarrow> P i)"
  by (auto simp: list_all_iff)

section \<open>The run around the seed\<close>

text \<open>
  C1, as amended. Let the ids \<open>a..b\<close> (with \<open>1 \<le> a\<close>) around the seed all carry the
  group id \<open>g\<close> of the seed, and let no message carry \<open>g\<close> among the ten ids below \<open>a\<close>
  (as far as they are positive) and the ten ids above \<open>b\<close>. Then the call succeeds and
  returns exactly the stored messages with the ids \<open>a..b\<close>, in this order; these are the
  positive ids of the contiguous run around the seed.
\<close>

theorem isolated_run_resolved:
  assumes "1 \<le> a" "a \<le> seed" "seed \<le> b"
    and "truthy g"
    and "list_all (has_group (stored (service w) c) g) [a..b]"
    and "list_all (\<lambda>i. \<not> has_group (stored (service w) c) g i) [max 1 (a - 10)..a - 1]"
    and "list_all (\<lambda>i. \<not> has_group (stored (service w) c) g i) [b + 1..b + 10]"
  shows "\<exists>ms w'. get_media_group chat_client c seed w = Some (Inr ms, w') \<and>
           ms = messages_between (stored (service w) c) a b \<and>
           map id_msg ms = [a..b] \<and>
           (\<forall>i. 1 \<le> i \<longrightarrow>
              (i \<in> set (map id_msg ms) \<longleftrightarrow> in_run (stored (service w) c) g seed i))"
proof -
  let ?ch = "stored (service w) c"
  have run: "\<forall>i. a \<le> i \<and> i \<le> b \<longrightarrow> has_group ?ch g i"
    using assms(5) by (simp add: list_all_upto)
  have below: "\<forall>i. max 1 (a - 10) \<le> i \<and> i < a \<longrightarrow> \<not> has_group ?ch g i"
    using assms(6) by (auto simp: list_all_upto)
  have above: "\<forall>i. b < i \<and> i \<le> b + 10 \<longrightarrow> \<not> has_group ?ch g i"
    using assms(7) by (auto simp: list_all_upto)
  from get_media_group_run [OF assms(1-3) refl assms(4) run below above]
  obtain w' where r: "get_media_group chat_client c seed w = Some (Inr (messages_between ?ch a b), w')"
    by blast
  have ids: "map id_msg (messages_between ?ch a b) = [a..b]"
    using run by (rule ids_messages_run)
  have "\<forall>i. 1 \<le> i \<longrightarrow> (i \<in> set [a..b] \<longleftrightarrow> in_run ?ch g seed i)"
    using in_run_iff [OF assms(2,3) run below above] by simp
  then have "\<forall>i. 1 \<le> i \<longrightarrow>
      (i \<in> set (map id_msg (messages_between ?ch a b)) \<longleftrightarrow> in_run ?ch g seed i)"
    by (simp only: ids)
  with r ids show ?thesis by blast
qed

theorem isolated_run_resolved_witness:
  "\<exists>ms w'. get_media_group chat_client (ChatId 1) 5
        \<lparr>service = [(ChatId 1, [Message 3 (Some (PStr ''x'')), Message 4 (Some (PInt 7)),
           Message 5 (Some (PInt 7)), Message 6 (Some (PInt 7)), Message 8 None])],
         calls = []\<rparr> = Some (Inr ms, w') \<and>
      ms = [Message 4 (Some (PInt 7)), Message 5 (Some (PInt 7)), Message 6 (Some (PInt 7))]"
proof -
  let ?w = "\<lparr>service = [(ChatId 1, [Message 3 (Some (PStr ''x'')), Message 4 (Some (PInt 7)),
           Message 5 (Some (PInt 7)), Message 6 (Some (PInt 7)), Message 8 None])],
         calls = []\<rparr>"
  let ?ch = "stored (service ?w) (ChatId 1)"
  let ?g = "Some (PInt 7)"
  have run: "list_all (has_group ?ch ?g) [4..6]" by code_simp
  have below: "list_all (\<lambda>i. \<not> has_group ?ch ?g i) [max 1 (4 - 10)..4 - 1]" by code_simp
  have above: "list_all (\<lambda>i. \<not> has_group ?ch ?g i) [6 + 1..6 + 10]" by code_simp
  have ms: "messages_between ?ch 4 6
      = [Message 4 (Some (PInt 7)), Message 5 (Some (PInt 7)), Message 6 (Some (PInt 7))]"
    by code_simp
  from isolated_run_resolved [of 4 5 6 ?g ?w "ChatId 1", OF _ _ _ _ run below above]
  obtain ms' w' where "get_media_group chat_client (ChatId 1) 5 ?w = Some (Inr ms', w')"
    and "ms' = messages_between ?ch 4 6"
    by auto
  with ms show ?thesis by simp
qed

text \<open>
  The claim as it stands fails: with the group id on 12 and 14 but not on 13, the call
  for seed 12 returns the messages 12 and 14, and 14 is not in the run around 12.
\<close>

theorem forward_scan_crosses_gap:
  "get_media_group chat_client (ChatId 1) 12
     \<lparr>service = [(ChatId 1, [Message 12 (Some (PInt 7)), Message 13 None,
                             Message 14 (Some (PInt 7))])],
      calls = []\<rparr>
   = Some (Inr [Message 12 (Some (PInt 7)), Message 14 (Some (PInt 7))],
       \<lparr>service = [(ChatId 1, [Message 12 (Some (PInt 7)), Message 13 None,
                               Message 14 (Some (PInt 7))])],
        calls = [GetOne (ChatId 1) 12, GetRange (ChatId 1) 3 12, GetRange (ChatId 1) 2 11,
                 GetRange (ChatId 1) 13 22, GetRange (ChatId 1) 15 24]\<rparr>)
   \<and> \<not> in_run [Message 12 (Some (PInt 7)), Message 13 None, Message 14 (Some (PInt 7))]
         (Some (PInt 7)) 12 14"
  by code_simp

text \<open>
  C4, as amended. In a chat where the messages 10 to 14 carry the group id \<open>g\<close>, the
  messages 9 and 15 do not, and no other message among the ids 1 to 24 does, the call for
  seed 12 succeeds and returns exactly the five stored messages 10, 11, 12, 13, 14,
  ascending by id.
\<close>

theorem album_10_to_14_resolved:
  assumes "truthy g"
    and "list_all (has_group (stored (service w) c) g) [10..14]"
    and "\<not> has_group (stored (service w) c) g 9"
    and "\<not> has_group (stored (service w) c) g 15"
    and "list_all (\<lambda>i. \<not> has_group (stored (service w) c) g i) ([1..8] @ [16..24])"
  shows "\<exists>ms w'. get_media_group chat_client c 12 w = Some (Inr ms, w') \<and>
           ms = messages_between (stored (service w) c) 10 14 \<and>
           map id_msg ms = [10, 11, 12, 13, 14] \<and>
           list_all (\<lambda>m. media_group_id m = g) ms"
proof -
  let ?ch = "stored (service w) c"
  have run: "\<forall>i. 10 \<le> i \<and> i \<le> 14 \<longrightarrow> has_group ?ch g i"
    using assms(2) by (simp only: list_all_upto)
  from assms(5) have "list_all (\<lambda>i. \<not> has_group ?ch g i) [1..8]"
    and "list_all (\<lambda>i. \<not> has_group ?ch g i) [16..24]"
    by (simp_all only: list_all_append)
  then have low: "\<forall>i. 1 \<le> i \<and> i \<le> 8 \<longrightarrow> \<not> has_group ?ch g i"
    and high: "\<forall>i. 16 \<le> i \<and> i \<le> 24 \<longrightarrow> \<not> has_group ?ch g i"
    by (simp_all only: list_all_upto)
  have below: "\<forall>i. max 1 (10 - 10) \<le> i \<and> i < 10 \<longrightarrow> \<not> has_group ?ch g i"
  proof (intro allI impI)
    fix i :: int assume "max 1 (10 - 10) \<le> i \<and> i < 10"
    then have "(1 \<le> i \<and> i \<le> 8) \<or> i = 9" by auto
    with low assms(3) show "\<not> has_group ?ch g i" by blast
  qed
  have above: "\<forall>i. 14 < i \<and> i \<le> 14 + 10 \<longrightarrow> \<not> has_group ?ch g i"
  proof (intro allI impI)
    fix i :: int assume "14 < i \<and> i \<le> 14 + 10"
    then have "(16 \<le> i \<and> i \<le> 24) \<or> i = 15" by auto
    with high assms(4) show "\<not> has_group ?ch g i" by blast
  qed
  from get_media_group_run [of 10 12 14 w c ?ch g, OF _ _ _ refl assms(1) run below above]
  obtain w' where r: "get_media_group chat_client c 12 w = Some (Inr (messages_between ?ch 10 14), w')"
    by auto
  have "map id_msg (messages_between ?ch 10 14) = [10..14]"
    using run by (rule ids_messages_run)
  also have "[10..14] = [10, 11, 12, 13, 14 :: int]" by code_simp
  finally have ids: "map id_msg (messages_between ?ch 10 14) = [10, 11, 12, 13, 14]" .
  have "group_messages g (messages_between ?ch 10 14) = messages_between ?ch 10 14"
    using run by (rule group_messages_run)
  then have "\<forall>m \<in> set (messages_between ?ch 10 14). media_group_id m = g"
    by (metis group_messages_member)
  then have "list_all (\<lambda>m. media_group_id m = g) (messages_between ?ch 10 14)"
    by (simp add: list_all_iff)
  with r ids show ?thesis by simp
qed

theorem album_10_to_14_resolved_witness:
  "\<exists>ms w'. get_media_group chat_client (ChatId (- 1001)) 12
        \<lparr>service = [(ChatId (- 1001), [Message 9 None, Message 10 (Some (PInt 7)),
           Message 11 (Some (PInt 7)), Message 12 (Some (PInt 7)), Message 13 (Some (PInt 7)),
           Message 14 (Some (PInt 7)), Message 15 (Some (PInt 8))])],
         calls = []\<rparr> = Some (Inr ms, w') \<and>
      ms = [Message 10 (Some (PInt 7)), Message 11 (Some (PInt 7)), Message 12 (Some (PInt 7)),
            Message 13 (Some (PInt 7)), Message 14 (Some (PInt 7))]"
proof -
  let ?w = "\<lparr>service = [(ChatId (- 1001), [Message 9 None, Message 10 (Some (PInt 7)),
           Message 11 (Some (PInt 7)), Message 12 (Some (PInt 7)), Message 13 (Some (PInt 7)),
           Message 14 (Some (PInt 7)), Message 15 (Some (PInt 8))])],
         calls = []\<rparr>"
  let ?ch = "stored (service ?w) (ChatId (- 1001))"
  let ?g = "Some (PInt 7)"
  have g: "truthy ?g" by simp
  have run: "list_all (has_group ?ch ?g) [10..14]" by code_simp
  have nine: "\<not> has_group ?ch ?g 9" by code_simp
  have fifteen: "\<not> has_group ?ch ?g 15" by code_simp
  have others: "list_all (\<lambda>i. \<not> has_group ?ch ?g i) ([1..8] @ [16..24])" by code_simp
  have ms: "messages_between ?ch 10 14
      = [Message 10 (Some (PInt 7)), Message 11 (Some (PInt 7)), Message 12 (Some (PInt 7)),
         Message 13 (Some (PInt 7)), Message 14 (Some (PInt 7))]"
    by code_simp
  from album_10_to_14_resolved [OF g run nine fifteen others]
  obtain ms' w' where "get_media_group chat_client (ChatId (- 1001)) 12 ?w = Some (Inr ms', w')"
    and "ms' = messages_between ?ch 10 14"
    by auto
  with ms show ?thesis by simp
qed

text \<open>
  The claim as it stands fails: the conditions on the messages 9 to 15 do not fix the
  result. With one more message of the group at id 17 the messages 10 to 14 carry the
  group id, 9 and 15 do not, and the call for seed 12 returns six messages: the forward
  loop takes every match of the chunk 13..22, so 17 comes with 13 and 14.
\<close>

theorem album_with_later_match:
  "list_all (has_group [Message 9 None, Message 10 (Some (PInt 7)), Message 11 (Some (PInt 7)),
       Message 12 (Some (PInt 7)), Message 13 (Some (PInt 7)), Message 14 (Some (PInt 7)),
       Message 15 (Some (PInt 8)), Message 17 (Some (PInt 7))] (Some (PInt 7))) [10..14]
   \<and> \<not> has_group [Message 9 None, Message 10 (Some (PInt 7)), Message 11 (Some (PInt 7)),
       Message 12 (Some (PInt 7)), Message 13 (Some (PInt 7)), Message 14 (Some (PInt 7)),
       Message 15 (Some (PInt 8)), Message 17 (Some (PInt 7))] (Some (PInt 7)) 9
   \<and> \<not> has_group [Message 9 None, Message 10 (Some (PInt 7)), Message 11 (Some (PInt 7)),
       Message 12 (Some (PInt 7)), Message 13 (Some (PInt 7)), Message 14 (Some (PInt 7)),
       Message 15 (Some (PInt 8)), Message 17 (Some (PInt 7))] (Some (PInt 7)) 15
   \<and> get_media_group chat_client (ChatId 1) 12
     \<lparr>service = [(ChatId 1, [Message 9 None, Message 10 (Some (PInt 7)),
         Message 11 (Some (PInt 7)), Message 12 (Some (PInt 7)), Message 13 (Some (PInt 7)),
         Message 14 (Some (PInt 7)), Message 15 (Some (PInt 8)), Message 17 (Some (PInt 7))])],
      calls = []\<rparr>
   = Some (Inr [Message 10 (Some (PInt 7)), Message 11 (Some (PInt 7)),
                Message 12 (Some (PInt 7)), Message 13 (Some (PInt 7)),
                Message 14 (Some (PInt 7)), Message 17 (Some (PInt 7))],
       \<lparr>service = [(ChatId 1, [Message 9 None, Message 10 (Some (PInt 7)),
           Message 11 (Some (PInt 7)), Message 12 (Some (PInt 7)), Message 13 (Some (PInt 7)),
           Message 14 (Some (PInt 7)), Message 15 (Some (PInt 8)), Message 17 (Some (PInt 7))])],
        calls = [GetOne (ChatId 1) 12, GetRange (ChatId 1) 3 12, GetRange (ChatId 1) 1 9,
                 GetRange (ChatId 1) 13 22, GetRange (ChatId 1) 18 27]\<rparr>)"
  by code_simp

section \<open>A match that is not contiguous with the seed\<close>

text \<open>
  C9. A successful call whose result does not contain the seed: the messages 10, 12 and 13
  carry the group id and 11 does not. For seed 12 the seed lookup succeeds; the first
  backward chunk (ids 3 to 12) holds the matches 10 and 12, which are not a block ending at
  12, so the backward loop stops with nothing, the seed included; the forward loop adds 13.
\<close>

theorem seed_excluded_from_result:
  "get_media_group chat_client (ChatId 1) 12
     \<lparr>service = [(ChatId 1, [Message 10 (Some (PInt 7)), Message 11 None,
                             Message 12 (Some (PInt 7)), Message 13 (Some (PInt 7))])],
      calls = []\<rparr>
   = Some (Inr [Message 13 (Some (PInt 7))],
       \<lparr>service = [(ChatId 1, [Message 10 (Some (PInt 7)), Message 11 None,
                               Message 12 (Some (PInt 7)), Message 13 (Some (PInt 7))])],
        calls = [GetOne (ChatId 1) 12, GetRange (ChatId 1) 3 12, GetRange (ChatId 1) 13 22,
                 GetRange (ChatId 1) 14 23]\<rparr>)
   \<and> fst (get_messages_one chat_client (ChatId 1) 12
        [(ChatId 1, [Message 10 (Some (PInt 7)), Message 11 None,
                     Message 12 (Some (PInt 7)), Message 13 (Some (PInt 7))])])
       = Some (Message 12 (Some (PInt 7)))
   \<and> fst (backward_scan chat_client (ChatId 1) (Some (PInt 7)) [] 12
        \<lparr>service = [(ChatId 1, [Message 10 (Some (PInt 7)), Message 11 None,
                                Message 12 (Some (PInt 7)), Message 13 (Some (PInt 7))])],
         calls = [GetOne (ChatId 1) 12]\<rparr>) = []
   \<and> Message 12 (Some (PInt 7)) \<notin> set [Message 13 (Some (PInt 7))]"
  by code_simp

section \<open>When the assembly fails\<close>

lemma backward_scan_rejected:
  assumes "get_message_chunk self c (max 1 (cur - 9)) cur w = (chunk, w2)"
    and "gm = group_messages g chunk"
    and "gm = [] \<or> id_msg (hd gm) \<noteq> cur - int (length gm) + 1"
  shows "backward_scan self c g acc cur w = (acc, w2)"
  using assms by (subst backward_scan.simps) (simp add: Let_def)

lemma backward_scan_accepted:
  assumes "get_message_chunk self c (max 1 (cur - 9)) cur w = (chunk, w2)"
    and "gm = group_messages g chunk"
    and "\<not> (gm = [] \<or> id_msg (hd gm) \<noteq> cur - int (length gm) + 1)"
  shows "fst (backward_scan self c g acc cur w) \<noteq> []"
proof (cases "id_msg (hd gm) - 1 \<le> 0")
  case True
  with assms have "backward_scan self c g acc cur w = (gm @ acc, w2)"
    by (subst backward_scan.simps) (simp add: Let_def)
  with assms(3) show ?thesis by simp
next
  case False
  with assms have "backward_scan self c g acc cur w =
      backward_scan self c g (gm @ acc) (id_msg (hd gm) - 1) w2"
    by (subst backward_scan.simps) (simp add: Let_def)
  moreover obtain pre where
    "fst (backward_scan self c g (gm @ acc) (id_msg (hd gm) - 1) w2) = pre @ gm @ acc"
    using backward_scan_extends [of self c g "gm @ acc" "id_msg (hd gm) - 1" w2] by auto
  ultimately show ?thesis using assms(3) by simp
qed

lemma forward_scan_keeps:
  assumes "forward_scan self c g acc cur w = Some r" "acc \<noteq> []"
  shows "fst r \<noteq> []"
  using forward_scan_extends [OF assms(1)] assms(2) by auto

lemma forward_scan_empty_iff:
  "(\<exists>w'. forward_scan self c g [] cur w = Some ([], w')) \<longleftrightarrow>
     group_messages g (fst (get_message_chunk self c cur (cur + 9) w)) = []"
proof (cases "group_messages g (fst (get_message_chunk self c cur (cur + 9) w)) = []")
  case True
  then have "forward_scan self c g [] cur w = Some ([], snd (get_message_chunk self c cur (cur + 9) w))"
    by (subst forward_scan.simps) (simp add: Let_def)
  with True show ?thesis by simp
next
  case False
  define gm where "gm = group_messages g (fst (get_message_chunk self c cur (cur + 9) w))"
  from False have step: "forward_scan self c g [] cur w =
      forward_scan self c g gm (id_msg (last gm) + 1) (snd (get_message_chunk self c cur (cur + 9) w))"
    by (subst forward_scan.simps) (simp add: Let_def gm_def)
  have "\<not> (\<exists>w'. forward_scan self c g [] cur w = Some ([], w'))"
  proof
    assume "\<exists>w'. forward_scan self c g [] cur w = Some ([], w')"
    then obtain w' where "forward_scan self c g [] cur w = Some ([], w')" ..
    with step have "forward_scan self c g gm (id_msg (last gm) + 1)
        (snd (get_message_chunk self c cur (cur + 9) w)) = Some ([], w')" by simp
    from forward_scan_keeps [OF this] False show False by (simp add: gm_def)
  qed
  with False show ?thesis by simp
qed

lemma assembly_failure_char:
  assumes "0 < message_id"
    and "get_messages_single self chat_id message_id w = (Some t, w1)"
    and "truthy (media_group_id t)"
    and "get_message_chunk self chat_id (max 1 (message_id - 9)) message_id w1 = (chunk, w2)"
    and "gm = group_messages (media_group_id t) chunk"
  shows "(\<exists>w'. get_media_group self chat_id message_id w = Some (Inl AssemblyFailure, w')) \<longleftrightarrow>
     (gm = [] \<or> id_msg (hd gm) \<noteq> message_id - int (length gm) + 1) \<and>
     group_messages (media_group_id t)
       (fst (get_message_chunk self chat_id (message_id + 1) (message_id + 10) w2)) = []"
proof (cases "gm = [] \<or> id_msg (hd gm) \<noteq> message_id - int (length gm) + 1")
  case True
  have bk: "backward_scan self chat_id (media_group_id t) [] message_id w1 = ([], w2)"
    using assms(4,5) True by (rule backward_scan_rejected)
  have "(\<exists>w'. get_media_group self chat_id message_id w = Some (Inl AssemblyFailure, w')) \<longleftrightarrow>
      (\<exists>w'. forward_scan self chat_id (media_group_id t) [] (message_id + 1) w2 = Some ([], w'))"
    using assms(1-3) by (auto simp: get_media_group_def bk split: option.splits)
  also have "\<dots> \<longleftrightarrow> group_messages (media_group_id t)
       (fst (get_message_chunk self chat_id (message_id + 1) (message_id + 1 + 9) w2)) = []"
    by (rule forward_scan_empty_iff)
  finally show ?thesis using True by (simp add: add.assoc)
next
  case False
  obtain bk w2' where bk: "backward_scan self chat_id (media_group_id t) [] message_id w1 = (bk, w2')"
    by force
  with backward_scan_accepted [OF assms(4,5) False, of "[]"] have ne: "bk \<noteq> []" by simp
  have "\<not> (\<exists>w'. get_media_group self chat_id message_id w = Some (Inl AssemblyFailure, w'))"
    using assms(1-3) ne forward_scan_keeps [of self chat_id "media_group_id t" bk "message_id + 1" w2']
    by (auto simp: get_media_group_def bk split: option.splits if_splits)
  with False show ?thesis by simp
qed

text \<open>
  C3. The claim: once the seed lookup has succeeded, the call never fails with
  \<open>AssemblyFailure\<close>. The code does not keep it. In a chat where the messages 10 and 12
  carry the group id and there is no message 11 (an album whose middle item was deleted),
  the seed lookup for 12 succeeds; the test of the backward loop finds the matches 10 and
  12 in the chunk 3..12, which are not a block ending at 12, and breaks with nothing kept,
  the seed included; the forward loop starts at 13 and finds nothing; the call fails with
  \<open>AssemblyFailure\<close>, for a message that does belong to a media group.
\<close>

theorem assembly_failure_after_seed_lookup:
  "fst (get_messages_one chat_client (ChatId 1) 12
        [(ChatId 1, [Message 10 (Some (PInt 7)), Message 12 (Some (PInt 7))])])
     = Some (Message 12 (Some (PInt 7))) \<and>
   truthy (media_group_id (Message 12 (Some (PInt 7)))) \<and>
   get_media_group chat_client (ChatId 1) 12
     \<lparr>service = [(ChatId 1, [Message 10 (Some (PInt 7)), Message 12 (Some (PInt 7))])],
      calls = []\<rparr>
   = Some (Inl AssemblyFailure,
       \<lparr>service = [(ChatId 1, [Message 10 (Some (PInt 7)), Message 12 (Some (PInt 7))])],
        calls = [GetOne (ChatId 1) 12, GetRange (ChatId 1) 3 12, GetRange (ChatId 1) 13 22]\<rparr>)"
  by code_simp

section \<open>The backward loop ends\<close>

lemma snd_chunk_calls:
  "calls (snd (get_message_chunk self c lo hi w)) = calls w @ [GetRange c lo hi]"
  by (simp add: get_message_chunk_def split: prod.splits)

lemma backward_scan_calls:
  "1 \<le> cur \<Longrightarrow>
     \<exists>ids. calls (snd (backward_scan self c g acc cur w))
           = calls w @ map (\<lambda>i. GetRange c (max 1 (i - 9)) i) ids \<and>
         ids \<noteq> [] \<and> hd ids = cur \<and> sorted_wrt (>) ids \<and> (\<forall>i \<in> set ids. 1 \<le> i \<and> i \<le> cur)"
proof (induction self c g acc cur w rule: backward_scan.induct)
  case (1 self c g acc cur w)
  define cw where "cw = get_message_chunk self c (max 1 (cur - 9)) cur w"
  define gm where "gm = group_messages g (fst cw)"
  have cw_calls: "calls (snd cw) = calls w @ [GetRange c (max 1 (cur - 9)) cur]"
    by (simp add: cw_def snd_chunk_calls)
  show ?case
  proof (cases "(gm = [] \<or> id_msg (hd gm) \<noteq> cur - int (length gm) + 1) \<or> id_msg (hd gm) - 1 \<le> 0")
    case True
    then have "snd (backward_scan self c g acc cur w) = snd cw"
      by (subst backward_scan.simps) (auto simp: Let_def cw_def gm_def)
    with cw_calls "1.prems"
    have "calls (snd (backward_scan self c g acc cur w))
           = calls w @ map (\<lambda>i. GetRange c (max 1 (i - 9)) i) [cur] \<and>
         [cur] \<noteq> [] \<and> hd [cur] = cur \<and> sorted_wrt (>) [cur] \<and> (\<forall>i \<in> set [cur]. 1 \<le> i \<and> i \<le> cur)"
      by simp
    then show ?thesis by blast
  next
    case False
    then have accepted: "\<not> (gm = [] \<or> id_msg (hd gm) \<noteq> cur - int (length gm) + 1)"
      and positive: "\<not> id_msg (hd gm) - 1 \<le> 0" by auto
    define cur' where "cur' = id_msg (hd gm) - 1"
    from accepted have "0 < length gm" "id_msg (hd gm) = cur - int (length gm) + 1" by auto
    then have less: "cur' < cur" by (simp add: cur'_def)
    from positive have pos: "1 \<le> cur'" by (simp add: cur'_def)
    from accepted positive have eq: "backward_scan self c g acc cur w =
        backward_scan self c g (gm @ acc) cur' (snd cw)"
      by (subst backward_scan.simps) (simp add: Let_def cw_def gm_def cur'_def)
    from "1.IH" [OF cw_def gm_def accepted positive] pos
    obtain ids where ids: "calls (snd (backward_scan self c g (gm @ acc) cur' (snd cw)))
           = calls (snd cw) @ map (\<lambda>i. GetRange c (max 1 (i - 9)) i) ids"
        "ids \<noteq> []" "hd ids = cur'" "sorted_wrt (>) ids" "\<forall>i \<in> set ids. 1 \<le> i \<and> i \<le> cur'"
      by (auto simp: cur'_def)
    from ids less "1.prems" eq cw_calls
    have "calls (snd (backward_scan self c g acc cur w))
           = calls w @ map (\<lambda>i. GetRange c (max 1 (i - 9)) i) (cur # ids) \<and>
         cur # ids \<noteq> [] \<and> hd (cur # ids) = cur \<and> sorted_wrt (>) (cur # ids) \<and>
         (\<forall>i \<in> set (cur # ids). 1 \<le> i \<and> i \<le> cur)"
      by auto
    then show ?thesis by blast
  qed
qed

lemma strict_desc_length:
  "sorted_wrt (>) ids \<Longrightarrow> \<forall>i \<in> set ids. 1 \<le> i \<and> i \<le> n \<Longrightarrow> 0 \<le> n \<Longrightarrow> int (length ids) \<le> (n :: int)"
proof (induction ids arbitrary: n)
  case Nil
  then show ?case by simp
next
  case (Cons x xs)
  then have "int (length xs) \<le> x - 1"
    by (intro Cons.IH) auto
  with Cons.prems show ?case by simp
qed

text \<open>
  C8. The backward loop is a total function (its termination is proved with the measure
  \<open>current_id\<close>). Started at a positive id, for every client it fetches the chunks
  \<open>[max 1 (i - 9), i]\<close> for a strictly decreasing list of ids \<open>i\<close> that starts at the
  seed and stays at 1 or above, so no lower bound is below 1 and there are at most
  \<open>current_id\<close> fetches. In particular, on a stored chat whose group occupies the ids
  \<open>1..b\<close> (and no id among the ten above \<open>b\<close>), the call for a seed in the group returns
  the messages \<open>1..b\<close>.
\<close>

theorem backward_scan_clamped_and_bounded:
  assumes "1 \<le> current_id"
  shows "(\<exists>ids. calls (snd (backward_scan self chat_id g media_group current_id w))
             = calls w @ map (\<lambda>i. GetRange chat_id (max 1 (i - 9)) i) ids \<and>
           hd ids = current_id \<and> ids \<noteq> [] \<and> sorted_wrt (>) ids \<and>
           list_all (\<lambda>i. 1 \<le> i \<and> 1 \<le> max 1 (i - 9)) ids \<and>
           length ids \<le> nat current_id) \<and>
         (current_id \<le> b \<and> truthy g \<and>
          list_all (has_group (stored (service wc) chat_id) g) [1..b] \<and>
          list_all (\<lambda>i. \<not> has_group (stored (service wc) chat_id) g i) [b + 1..b + 10] \<longrightarrow>
          (\<exists>w'. get_media_group chat_client chat_id current_id wc
                  = Some (Inr (messages_between (stored (service wc) chat_id) 1 b), w')))"
proof
  from backward_scan_calls [OF assms, of self chat_id g media_group w]
  obtain ids where ids: "calls (snd (backward_scan self chat_id g media_group current_id w))
           = calls w @ map (\<lambda>i. GetRange chat_id (max 1 (i - 9)) i) ids"
      "ids \<noteq> []" "hd ids = current_id" "sorted_wrt (>) ids"
      "\<forall>i \<in> set ids. 1 \<le> i \<and> i \<le> current_id"
    by blast
  from ids(4,5) assms have "int (length ids) \<le> current_id"
    by (intro strict_desc_length) auto
  then have "length ids \<le> nat current_id" by simp
  moreover from ids(5) have "list_all (\<lambda>i. 1 \<le> i \<and> 1 \<le> max 1 (i - 9)) ids"
    by (simp add: list_all_iff)
  ultimately show "\<exists>ids. calls (snd (backward_scan self chat_id g media_group current_id w))
             = calls w @ map (\<lambda>i. GetRange chat_id (max 1 (i - 9)) i) ids \<and>
           hd ids = current_id \<and> ids \<noteq> [] \<and> sorted_wrt (>) ids \<and>
           list_all (\<lambda>i. 1 \<le> i \<and> 1 \<le> max 1 (i - 9)) ids \<and>
           length ids \<le> nat current_id"
    using ids(1-4) by blast
next
  let ?ch = "stored (service wc) chat_id"
  show "current_id \<le> b \<and> truthy g \<and> list_all (has_group ?ch g) [1..b] \<and>
        list_all (\<lambda>i. \<not> has_group ?ch g i) [b + 1..b + 10] \<longrightarrow>
        (\<exists>w'. get_media_group chat_client chat_id current_id wc
                  = Some (Inr (messages_between ?ch 1 b), w'))"
  proof (intro impI, elim conjE)
    assume b: "current_id \<le> b" and g: "truthy g"
      and run: "list_all (has_group ?ch g) [1..b]"
      and above: "list_all (\<lambda>i. \<not> has_group ?ch g i) [b + 1..b + 10]"
    have run': "\<forall>i. 1 \<le> i \<and> i \<le> b \<longrightarrow> has_group ?ch g i"
      using run by (simp only: list_all_upto)
    have below': "\<forall>i. max 1 (1 - 10) \<le> i \<and> i < 1 \<longrightarrow> \<not> has_group ?ch g i" by auto
    have above': "\<forall>i. b < i \<and> i \<le> b + 10 \<longrightarrow> \<not> has_group ?ch g i"
      using above by (auto simp: list_all_upto)
    from get_media_group_run [OF _ assms b refl g run' below' above']
    show "\<exists>w'. get_media_group chat_client chat_id current_id wc
                  = Some (Inr (messages_between ?ch 1 b), w')" by auto
  qed
qed

theorem backward_scan_clamped_and_bounded_witness:
  "(\<exists>ids. calls (snd (backward_scan chat_client (ChatId 1) (Some (PInt 7)) [] 12
              \<lparr>service = [(ChatId 1, map (\<lambda>i. Message i (Some (PInt 7))) [1..12])],
               calls = [GetOne (ChatId 1) 12]\<rparr>))
        = calls \<lparr>service = [(ChatId 1, map (\<lambda>i. Message i (Some (PInt 7))) [1..12])],
                 calls = [GetOne (ChatId 1) 12]\<rparr>
          @ map (\<lambda>i. GetRange (ChatId 1) (max 1 (i - 9)) i) ids \<and>
      hd ids = 12 \<and> ids \<noteq> [] \<and> sorted_wrt (>) ids \<and>
      list_all (\<lambda>i. 1 \<le> i \<and> 1 \<le> max 1 (i - 9)) ids \<and> length ids \<le> nat 12) \<and>
   (\<exists>w'. get_media_group chat_client (ChatId 1) 12
        \<lparr>service = [(ChatId 1, map (\<lambda>i. Message i (Some (PInt 7))) [1..12])], calls = []\<rparr>
      = Some (Inr (map (\<lambda>i. Message i (Some (PInt 7))) [1..12]), w'))"
proof -
  let ?c = "ChatId 1"
  let ?g = "Some (PInt 7)"
  let ?srv = "[(?c, map (\<lambda>i. Message i ?g) [1..12])]"
  let ?wc = "\<lparr>service = ?srv, calls = []\<rparr>"
  let ?w = "\<lparr>service = ?srv, calls = [GetOne ?c 12]\<rparr>"
  have pos: "(1 :: int) \<le> 12" by simp
  have hyp: "(12 :: int) \<le> 12 \<and> truthy ?g \<and>
      list_all (has_group (stored (service ?wc) ?c) ?g) [1..12] \<and>
      list_all (\<lambda>i. \<not> has_group (stored (service ?wc) ?c) ?g i) [12 + 1..12 + 10]"
    by code_simp
  have ms: "messages_between (stored (service ?wc) ?c) 1 12 = map (\<lambda>i. Message i ?g) [1..12]"
    by code_simp
  note inst = backward_scan_clamped_and_bounded
    [OF pos, where self = chat_client and chat_id = ?c and g = ?g and media_group = "[]"
      and w = ?w and b = 12 and wc = ?wc]
  from inst have first: "\<exists>ids. calls (snd (backward_scan chat_client ?c ?g [] 12 ?w))
        = calls ?w @ map (\<lambda>i. GetRange ?c (max 1 (i - 9)) i) ids \<and>
      hd ids = 12 \<and> ids \<noteq> [] \<and> sorted_wrt (>) ids \<and>
      list_all (\<lambda>i. 1 \<le> i \<and> 1 \<le> max 1 (i - 9)) ids \<and> length ids \<le> nat 12"
    by (rule conjunct1)
  from inst have "(12 :: int) \<le> 12 \<and> truthy ?g \<and>
      list_all (has_group (stored (service ?wc) ?c) ?g) [1..12] \<and>
      list_all (\<lambda>i. \<not> has_group (stored (service ?wc) ?c) ?g i) [12 + 1..12 + 10] \<longrightarrow>
      (\<exists>w'. get_media_group chat_client ?c 12 ?wc
         = Some (Inr (messages_between (stored (service ?wc) ?c) 1 12), w'))"
    by (rule conjunct2)
  from this hyp have "\<exists>w'. get_media_group chat_client ?c 12 ?wc
         = Some (Inr (messages_between (stored (service ?wc) ?c) 1 12), w')"
    by (rule mp)
  then have second: "\<exists>w'. get_media_group chat_client ?c 12 ?wc
         = Some (Inr (map (\<lambda>i. Message i ?g) [1..12]), w')"
    by (simp only: ms)
  from first second show ?thesis by (rule conjI)
qed

section \<open>A gap below the seed\<close>

lemma ids_group_messages_list:
  "map id_msg (group_messages g (List.map_filter (find_message ch) ids)) = filter (has_group ch g) ids"
  by (induction ids)
     (auto simp: map_filter_simps group_messages_def has_group_def
           split: option.splits dest: find_message_id)

lemma ids_group_messages:
  "map id_msg (group_messages g (messages_between ch lo hi)) = filter (has_group ch g) [lo..hi]"
  by (simp add: messages_between_def ids_group_messages_list)

lemma filter_upto_gap:
  assumes "lo \<le> k" "k < j" "j < hi" "P k" "\<not> P j"
  shows "filter P [lo..hi] \<noteq> [] \<and> hd (filter P [lo..hi]) \<noteq> hi - int (length (filter P [lo..hi])) + 1"
proof -
  define xs where "xs = filter P [lo..hi]"
  have k: "k \<in> set xs" using assms by (simp add: xs_def)
  then have ne: "xs \<noteq> []" by auto
  have srt: "sorted xs" unfolding xs_def by (rule sorted_wrt_filter) simp
  have dist: "distinct xs" by (simp add: xs_def)
  from ne obtain h t where xs: "xs = h # t" by (cases xs) auto
  with srt have ge: "\<forall>x \<in> set xs. h \<le> x" by auto
  with k have hk: "h \<le> k" by simp
  have "set xs \<subseteq> {h..hi} - {j}"
    using ge assms(5) by (auto simp: xs_def)
  then have "card (set xs) \<le> card ({h..hi} - {j})"
    by (intro card_mono) auto
  also have "\<dots> = card {h..hi} - 1"
    using hk assms by (subst card_Diff_singleton) auto
  finally have "length xs \<le> nat (hi - h + 1) - 1"
    using dist by (simp add: distinct_card)
  with hk assms have "int (length xs) \<le> hi - h" by simp
  then have "h \<noteq> hi - int (length xs) + 1" by simp
  with ne xs show ?thesis by (simp add: xs_def)
qed

lemma chunk_rejected_by_gap:
  assumes "max 1 (cur - 9) \<le> k" "k < j" "j < cur" "has_group ch g k" "\<not> has_group ch g j"
    and "gm = group_messages g (messages_between ch (max 1 (cur - 9)) cur)"
  shows "gm = [] \<or> id_msg (hd gm) \<noteq> cur - int (length gm) + 1"
proof -
  let ?xs = "filter (has_group ch g) [max 1 (cur - 9)..cur]"
  have ids: "map id_msg gm = ?xs" by (simp add: assms(6) ids_group_messages)
  from filter_upto_gap [OF assms(1-3), of "has_group ch g"] assms(4,5)
  have xs: "?xs \<noteq> []" "hd ?xs \<noteq> cur - int (length ?xs) + 1" by auto
  from xs(1) ids have ne: "gm \<noteq> []" by auto
  then have "id_msg (hd gm) = hd (map id_msg gm)" by (simp add: hd_map)
  moreover have "length gm = length (map id_msg gm)" by simp
  ultimately show ?thesis using xs(2) ids by metis
qed

lemma group_messages_empty_iff:
  "group_messages g (messages_between ch lo hi) = [] \<longleftrightarrow>
     list_all (\<lambda>i. \<not> has_group ch g i) [lo..hi]"
proof -
  have "group_messages g (messages_between ch lo hi) = [] \<longleftrightarrow>
      map id_msg (group_messages g (messages_between ch lo hi)) = []" by simp
  also have "\<dots> \<longleftrightarrow> filter (has_group ch g) [lo..hi] = []"
    by (simp only: ids_group_messages)
  also have "\<dots> \<longleftrightarrow> list_all (\<lambda>i. \<not> has_group ch g i) [lo..hi]"
    by (simp add: filter_empty_conv list_all_iff)
  finally show ?thesis .
qed

text \<open>
  What the test of the backward loop does to a seed with a gap below it, on every stored
  chat: when the messages 10 and 12 carry the group id \<open>g\<close> and the message 11 does not,
  the backward loop of the call for seed 12 breaks at its first chunk with nothing kept,
  so the seed itself is lost. The call then fails with \<open>AssemblyFailure\<close> exactly when no
  message with an id from 13 to 22 carries \<open>g\<close>, and otherwise returns only messages
  with ids from 13 on.
\<close>

lemma gap_below_seed_loses_seed:
  assumes "truthy g"
    and "has_group (stored (service w) c) g 10"
    and "\<not> has_group (stored (service w) c) g 11"
    and "has_group (stored (service w) c) g 12"
  shows "fst (backward_scan chat_client c g [] 12
               \<lparr>service = service w, calls = calls w @ [GetOne c 12]\<rparr>) = [] \<and>
     (\<exists>r w'. get_media_group chat_client c 12 w = Some (r, w') \<and>
        (case r of Inl e \<Rightarrow> e = AssemblyFailure
         | Inr ms \<Rightarrow> list_all (\<lambda>m. 13 \<le> id_msg m) ms)) \<and>
     ((\<exists>w'. get_media_group chat_client c 12 w = Some (Inl AssemblyFailure, w')) \<longleftrightarrow>
        list_all (\<lambda>i. \<not> has_group (stored (service w) c) g i) [13..22])"
proof -
  let ?ch = "stored (service w) c"
  define w1 where "w1 = \<lparr>service = service w, calls = calls w @ [GetOne c 12]\<rparr>"
  define w2 where "w2 = \<lparr>service = service w, calls = calls w1 @ [GetRange c 3 12]\<rparr>"
  define gm where "gm = group_messages g (messages_between ?ch 3 12)"
  from assms(4) obtain t where t: "find_message ?ch 12 = Some t" "media_group_id t = g"
    by (auto simp: has_group_def split: option.splits)
  have seed: "get_messages_single chat_client c 12 w = (Some t, w1)"
    by (simp add: single_chat t w1_def)
  have chunk: "get_message_chunk chat_client c (max 1 (12 - 9)) 12 w1 = (messages_between ?ch 3 12, w2)"
    by (simp add: chunk_chat w1_def w2_def)
  have gm': "gm = group_messages g (messages_between ?ch (max 1 (12 - 9)) 12)"
    by (simp add: gm_def)
  have rejected: "gm = [] \<or> id_msg (hd gm) \<noteq> 12 - int (length gm) + 1"
    using chunk_rejected_by_gap [OF _ _ _ assms(2,3) gm'] by simp
  have bk: "backward_scan chat_client c g [] 12 w1 = ([], w2)"
    using chunk gm_def rejected by (rule backward_scan_rejected)
  have ch2: "stored (service w2) c = ?ch" by (simp add: w2_def)
  from forward_scan_chat_terminates [OF ch2, of g "[]" 13]
  obtain ext w3 where fw: "forward_scan chat_client c g [] 13 w2 = Some (ext, w3)"
    and ext: "\<forall>m \<in> set ext. 13 \<le> id_msg m" by auto
  have result: "get_media_group chat_client c 12 w =
      (if ext = [] then Some (Inl AssemblyFailure, w3) else Some (Inr (sort_key id_msg ext), w3))"
    using assms(1) by (simp add: get_media_group_def seed t bk fw)
  have part2: "\<exists>r w'. get_media_group chat_client c 12 w = Some (r, w') \<and>
        (case r of Inl e \<Rightarrow> e = AssemblyFailure
         | Inr ms \<Rightarrow> list_all (\<lambda>m. 13 \<le> id_msg m) ms)"
    using ext by (simp add: result list_all_iff)
  have "(\<exists>w'. get_media_group chat_client c 12 w = Some (Inl AssemblyFailure, w')) \<longleftrightarrow>
      (gm = [] \<or> id_msg (hd gm) \<noteq> 12 - int (length gm) + 1) \<and>
      group_messages (media_group_id t) (fst (get_message_chunk chat_client c (12 + 1) (12 + 10) w2)) = []"
    using assms(1) t(2) chunk
    by (intro assembly_failure_char [OF _ seed]) (simp_all add: gm_def)
  also have "\<dots> \<longleftrightarrow> group_messages g (messages_between ?ch 13 22) = []"
    using rejected by (simp add: chunk_chat t w2_def)
  also have "\<dots> \<longleftrightarrow> list_all (\<lambda>i. \<not> has_group ?ch g i) [13..22]"
    by (rule group_messages_empty_iff)
  finally have part3: "(\<exists>w'. get_media_group chat_client c 12 w = Some (Inl AssemblyFailure, w')) \<longleftrightarrow>
      list_all (\<lambda>i. \<not> has_group ?ch g i) [13..22]" .
  from bk have part1: "fst (backward_scan chat_client c g [] 12
               \<lparr>service = service w, calls = calls w @ [GetOne c 12]\<rparr>) = []"
    by (simp add: w1_def)
  from part1 part2 part3 show ?thesis by (intro conjI)
qed

text \<open>
  C2. The claim: with the group id on the messages 10 and 12 but not on 11, the call for
  seed 12 stops the backward scan before message 10 and succeeds with the message 12 alone.
  The code stops before 10 but does not succeed: on the chat that holds just the messages
  10, 11 and 12 the backward loop keeps nothing, not even the seed, and the call fails with
  \<open>AssemblyFailure\<close>. On the same chat the call for seed 10 succeeds and returns the
  messages 10 and 12, since the forward loop keeps a match across the gap.
\<close>

theorem gap_below_seed_fails:
  "get_media_group chat_client (ChatId 1) 12
     \<lparr>service = [(ChatId 1, [Message 10 (Some (PInt 7)), Message 11 None,
                             Message 12 (Some (PInt 7))])],
      calls = []\<rparr>
   = Some (Inl AssemblyFailure,
       \<lparr>service = [(ChatId 1, [Message 10 (Some (PInt 7)), Message 11 None,
                               Message 12 (Some (PInt 7))])],
        calls = [GetOne (ChatId 1) 12, GetRange (ChatId 1) 3 12, GetRange (ChatId 1) 13 22]\<rparr>)
   \<and> fst (backward_scan chat_client (ChatId 1) (Some (PInt 7)) [] 12
        \<lparr>service = [(ChatId 1, [Message 10 (Some (PInt 7)), Message 11 None,
                                Message 12 (Some (PInt 7))])],
         calls = [GetOne (ChatId 1) 12]\<rparr>) = []
   \<and> get_media_group chat_client (ChatId 1) 10
     \<lparr>service = [(ChatId 1, [Message 10 (Some (PInt 7)), Message 11 None,
                             Message 12 (Some (PInt 7))])],
      calls = []\<rparr>
   = Some (Inr [Message 10 (Some (PInt 7)), Message 12 (Some (PInt 7))],
       \<lparr>service = [(ChatId 1, [Message 10 (Some (PInt 7)), Message 11 None,
                               Message 12 (Some (PInt 7))])],
        calls = [GetOne (ChatId 1) 10, GetRange (ChatId 1) 1 10, GetRange (ChatId 1) 1 9,
                 GetRange (ChatId 1) 11 20, GetRange (ChatId 1) 13 22]\<rparr>)"
  by code_simp

end
